theory Spec2Isabelle
  imports Main "HOL-Library.Word"
begin

unbundle bit_operations_syntax

section \<open>The virtual EPROM of epromimage.py\<close>

text \<open>
  The module keeps a fixed-size byte image (a Python \<open>bytearray\<close>) and, beside it, a
  \<open>bincopy.BinFile\<close> holding the address-tagged runs that were added. Python integers
  are unbounded, so addresses, the offset and the size are \<open>int\<close>; the elements of a
  \<open>bytes\<close> or \<open>bytearray\<close> are \<open>8 word\<close>.
\<close>

type_synonym byte = "8 word"

type_synonym segment = "int \<times> byte list"

subsection \<open>Exceptions\<close>

text \<open>
  The module declares one exception class, \<open>Error\<close>, and raises it with a formatted
  message. The message is kept as the template that produced it together with the values
  formatted into it:
  \<^item> \<open>AddingBytes addr\<close>: "Error adding bytes to the EPROM image at addr 0x%04X";
  \<^item> \<open>LessThanOffset addr offset\<close>: "Cannot add bytes to the EPROM image at addr 0x%04X -
    it is less than the offset addr 0x%04X";
  \<^item> \<open>PastEnd len addr size\<close>: "Added bytes of length %d at addr 0x%04X would run past the
    end of the EPROM, whose size is %d";
  \<^item> \<open>UnknownFileType filename\<close>: "Unknown file type for %s";
  \<^item> \<open>FromBincopy\<close>: \<open>Error(error)\<close>, a \<open>bincopy.Error\<close> wrapped by \<open>readfile\<close>.

  The other constructors of \<open>exn\<close> are exception classes that the module does not
  declare but lets through: \<open>bincopy.Error\<close>, and Python's \<open>OSError\<close>,
  \<open>IndexError\<close> and \<open>TypeError\<close>.
\<close>

datatype message =
    AddingBytes int
  | LessThanOffset int int
  | PastEnd nat int int
  | UnknownFileType string
  | FromBincopy

datatype exn =
    Error message
  | BincopyError
  | OSError
  | IndexError
  | TypeError

text \<open>The Python class of an exception value: what an \<open>except\<close> clause selects on.\<close>

datatype exn_class = ClsError | ClsBincopyError | ClsOSError | ClsIndexError | ClsTypeError

fun class_of :: "exn \<Rightarrow> exn_class" where
  "class_of (Error m) = ClsError"
| "class_of BincopyError = ClsBincopyError"
| "class_of OSError = ClsOSError"
| "class_of IndexError = ClsIndexError"
| "class_of TypeError = ClsTypeError"

subsection \<open>The segment store\<close>

text \<open>
  Modelled from the spec: \<open>bincopy.BinFile\<close> (its \<open>add_binary\<close>, \<open>segments\<close>,
  \<open>minimum_address\<close> and \<open>maximum_address\<close>) is a third-party library that is not part of
  the source tree. Section 4.1 of the specification describes it: a run is placed into the
  store; if any byte position of \<open>[address, address+len(data))\<close> already has a value the
  add fails and the store is as before; otherwise the run is recorded so that iteration
  yields non-overlapping runs in ascending address order, a run exactly contiguous with an
  existing one being coalesced with it. An empty \<open>data\<close> covers no byte position, so it
  cannot collide and leaves the covered addresses as they are.
\<close>

definition overlaps :: "int \<Rightarrow> byte list \<Rightarrow> segment \<Rightarrow> bool" where
  "overlaps a d s = (a < fst s + int (length (snd s)) \<and> fst s < a + int (length d))"

definition collides :: "segment list \<Rightarrow> int \<Rightarrow> byte list \<Rightarrow> bool" where
  "collides segs a d = list_ex (overlaps a d) segs"

fun insert_seg :: "int \<Rightarrow> byte list \<Rightarrow> segment list \<Rightarrow> segment list" where
  "insert_seg a d [] = [(a, d)]"
| "insert_seg a d ((b, e) # rest) =
     (if a + int (length d) < b then (a, d) # (b, e) # rest
      else if a + int (length d) = b then (a, d @ e) # rest
      else if b + int (length e) = a then insert_seg b (e @ d) rest
      else (b, e) # insert_seg a d rest)"

definition add_binary :: "segment list \<Rightarrow> byte list \<Rightarrow> int \<Rightarrow> exn + segment list" where
  "add_binary segs data address =
     (if data = [] then Inr segs
      else if collides segs address data then Inl BincopyError
      else Inr (insert_seg address data segs))"

text \<open>
  Modelled from the spec: \<open>minimum_address\<close> is the lowest occupied address and
  \<open>maximum_address\<close> one past the highest (\<open>scanfile\<close> subtracts 1 from it);
  both are \<open>None\<close> for a store without runs.
\<close>

definition minimum_address :: "segment list \<Rightarrow> int option" where
  "minimum_address segs =
     (case segs of [] \<Rightarrow> None
      | s # rest \<Rightarrow> Some (fold (\<lambda>t m. min (fst t) m) rest (fst s)))"

definition maximum_address :: "segment list \<Rightarrow> int option" where
  "maximum_address segs =
     (case segs of [] \<Rightarrow> None
      | s # rest \<Rightarrow>
          Some (fold (\<lambda>t m. max (fst t + int (length (snd t))) m) rest
                  (fst s + int (length (snd s)))))"

text \<open>The value stored at an absolute address, if a run covers it.\<close>

definition covers :: "segment \<Rightarrow> int \<Rightarrow> bool" where
  "covers s x = (fst s \<le> x \<and> x < fst s + int (length (snd s)))"

definition byte_at :: "segment list \<Rightarrow> int \<Rightarrow> byte option" where
  "byte_at segs x =
     (case find (\<lambda>s. covers s x) segs of
        None \<Rightarrow> None
      | Some s \<Rightarrow> Some (snd s ! nat (x - fst s)))"

subsection \<open>class EPROM\<close>

record EPROM =
  offset :: int
  size_EPROM :: int
  image_EPROM :: "byte list"
  binfile :: "segment list"

text \<open>
  \<open>__init__(size, offset=0)\<close>. The two warnings about multiples of 1024 are printed and
  change nothing. \<open>bytearray(b'\xff') * size\<close> is empty for a negative \<open>size\<close>.
\<close>

definition EPROM_init :: "int \<Rightarrow> int \<Rightarrow> EPROM" where
  "EPROM_init size_arg offset_arg =
     \<lparr>offset = offset_arg, size_EPROM = size_arg,
      image_EPROM = replicate (nat size_arg) 0xFF, binfile = []\<rparr>"

text \<open>\<open>checksum\<close>: \<open>sum(self.image) & 0xFFFF\<close>.\<close>

definition checksum :: "EPROM \<Rightarrow> int" where
  "checksum e = sum_list (map uint (image_EPROM e)) AND 0xFFFF"

text \<open>\<open>chunks\<close>: \<open>((addr - self.offset, data) for addr, data in self.binfile.segments)\<close>.\<close>

definition chunks :: "EPROM \<Rightarrow> (int \<times> byte list) list" where
  "chunks e = map (\<lambda>(addr, data). (addr - offset e, data)) (binfile e)"

text \<open>
  \<open>_add_bytes_to_image\<close>. An operation that can raise after changing the object returns
  the exception, if any, together with the object as it is afterwards. The slice
  assignment \<open>self.image[start:end] = data\<close> with \<open>0 \<le> start \<le> end\<close> replaces the
  elements from \<open>start\<close> up to \<open>end\<close>, both clipped to the length, by \<open>data\<close>.
\<close>

definition add_bytes_to_image :: "EPROM \<Rightarrow> int \<Rightarrow> byte list \<Rightarrow> exn option \<times> EPROM" where
  "add_bytes_to_image e addr data =
     (if addr < offset e then (Some (Error (LessThanOffset addr (offset e))), e)
      else
        let start = addr - offset e;
            stop = start + int (length data)
        in if stop > size_EPROM e
           then (Some (Error (PastEnd (length data) addr (size_EPROM e))), e)
           else (None, e\<lparr>image_EPROM :=
                   take (nat start) (image_EPROM e) @ data @ drop (nat stop) (image_EPROM e)\<rparr>))"

text \<open>
  \<open>add_bytes\<close>: the run goes to the store first; a \<open>bincopy.Error\<close> is turned into
  \<open>Error\<close>; only then is the run written to the image, where the bounds are checked.
\<close>

definition add_bytes :: "EPROM \<Rightarrow> int \<Rightarrow> byte list \<Rightarrow> exn option \<times> EPROM" where
  "add_bytes e addr data =
     (case add_binary (binfile e) data addr of
        Inl err \<Rightarrow> (Some (Error (AddingBytes addr)), e)
      | Inr segs \<Rightarrow> add_bytes_to_image (e\<lparr>binfile := segs\<rparr>) addr data)"

text \<open>
  The class invariant: the image has \<open>size\<close> bytes, and the store holds non-empty runs in
  ascending order, each ending at or before the start of the next.
\<close>

definition store_inv :: "segment list \<Rightarrow> bool" where
  "store_inv segs =
     (list_all (\<lambda>s. snd s \<noteq> []) segs \<and>
      sorted_wrt (\<lambda>s t. fst s + int (length (snd s)) \<le> fst t) segs)"

definition EPROM_inv :: "EPROM \<Rightarrow> bool" where
  "EPROM_inv e = (length (image_EPROM e) = nat (size_EPROM e) \<and> store_inv (binfile e))"


text \<open>
  The object that \<open>main\<close> builds last: \<open>EPROM(512)\<close>, then \<open>add_bytes(0, b'ab')\<close> and
  \<open>add_bytes(0x20, b'xyz')\<close>.
\<close>

definition main_two_chunks :: "EPROM" where
  "main_two_chunks =
     snd (add_bytes (snd (add_bytes (EPROM_init 512 0) 0 [0x61, 0x62])) 0x20 [0x78, 0x79, 0x7A])"

subsection \<open>Files and text\<close>

text \<open>
  A file system gives, for a path, the text that \<open>open(path, 'r')\<close> reads (line ends
  already translated to \<open>\n\<close>, as Python's text mode does), or \<open>None\<close> when \<open>open\<close>
  raises \<open>OSError\<close>. Characters are HOL's 8-bit \<open>char\<close>: text of code points below 256.
  A file whose bytes do not decode as text is outside the model.
\<close>

type_synonym filesystem = "string \<Rightarrow> string option"

text \<open>
  \<open>os.path.splitext(p)[1]\<close> on POSIX: the text from the last dot of the last path component
  on, provided a character other than a dot stands before that dot in the component;
  otherwise the empty string.
\<close>

definition basename :: "string \<Rightarrow> string" where
  "basename p = rev (takeWhile (\<lambda>c. c \<noteq> CHR ''/'') (rev p))"

definition splitext_ext :: "string \<Rightarrow> string" where
  "splitext_ext p =
     (let b = basename p;
          suffix = rev (takeWhile (\<lambda>c. c \<noteq> CHR ''.'') (rev b));
          stem = take (length b - length suffix - 1) b
      in if CHR ''.'' \<in> set b \<and> list_ex (\<lambda>c. c \<noteq> CHR ''.'') stem
         then CHR ''.'' # suffix else [])"

text \<open>\<open>readline()\<close> on a freshly opened file: the first line with its line end.\<close>

fun readline :: "string \<Rightarrow> string" where
  "readline [] = []"
| "readline (c # cs) = (if c = CHR 0x0A then [c] else c # readline cs)"

text \<open>\<open>readlines()\<close>: every line with its line end; the last line may lack one.\<close>

fun readlines_from :: "string \<Rightarrow> string \<Rightarrow> string list" where
  "readlines_from cur [] = (if cur = [] then [] else [cur])"
| "readlines_from cur (c # cs) =
     (if c = CHR 0x0A then (cur @ [c]) # readlines_from [] cs
      else readlines_from (cur @ [c]) cs)"

definition readlines :: "string \<Rightarrow> string list" where
  "readlines s = readlines_from [] s"

text \<open>
  \<open>str.strip()\<close> removes leading and trailing whitespace: the characters for which
  \<open>str.isspace\<close> holds, below 256 the codes 9 to 13, 28 to 32, 0x85 and 0xA0.
\<close>

definition is_space :: "char \<Rightarrow> bool" where
  "is_space c =
     (let n = (of_char c :: nat)
      in (9 \<le> n \<and> n \<le> 13) \<or> (28 \<le> n \<and> n \<le> 32) \<or> n = 0x85 \<or> n = 0xA0)"

definition strip :: "string \<Rightarrow> string" where
  "strip s = rev (dropWhile is_space (rev (dropWhile is_space s)))"

text \<open>The character class \<open>[a-fA-F0-9]\<close> and \<open>int(num, 16)\<close> of a two-digit match.\<close>

definition is_hexdigit :: "char \<Rightarrow> bool" where
  "is_hexdigit c =
     (let n = (of_char c :: nat)
      in (48 \<le> n \<and> n \<le> 57) \<or> (65 \<le> n \<and> n \<le> 70) \<or> (97 \<le> n \<and> n \<le> 102))"

definition hexval :: "char \<Rightarrow> nat" where
  "hexval c =
     (let n = (of_char c :: nat)
      in if n \<le> 57 then n - 48 else if n \<le> 70 then n - 55 else n - 87)"

definition int16 :: "char \<times> char \<Rightarrow> byte" where
  "int16 num = of_nat (16 * hexval (fst num) + hexval (snd num))"

text \<open>
  \<open>re.findall(r'([a-fA-F0-9][a-fA-F0-9])', line)\<close>: the matches of two adjacent hex digits,
  found from left to right without overlap. Where no match starts, the scan moves on by
  one character.
\<close>

fun findall_pairs :: "string \<Rightarrow> (char \<times> char) list" where
  "findall_pairs (a # b # rest) =
     (if is_hexdigit a \<and> is_hexdigit b then (a, b) # findall_pairs rest
      else findall_pairs (b # rest))"
| "findall_pairs rest = []"

text \<open>
  \<open>_get_filetype\<close>. The value is \<open>Some\<close> of the type string, or \<open>None\<close> where the
  function returns \<open>None\<close>. For \<open>.hex\<close> and for an unrecognised extension the file is opened
  and its first line read; \<open>line[0]\<close> raises \<open>IndexError\<close> on an empty line.
\<close>

definition get_filetype :: "filesystem \<Rightarrow> string \<Rightarrow> exn + string option" where
  "get_filetype fs filename =
     (let ext = splitext_ext filename
      in if ext = ''.s19'' then Inr (Some ''srecord'')
         else if ext = ''.bin'' then Inr (Some ''binary'')
         else if ext = ''.hex'' then
           (case fs filename of
              None \<Rightarrow> Inl OSError
            | Some text \<Rightarrow>
                (case readline text of
                   [] \<Rightarrow> Inl IndexError
                 | c # cs \<Rightarrow>
                     if c = CHR '':'' then Inr (Some ''intelhex'') else Inr (Some ''hex'')))
         else if ext = ''.ihex'' then Inr (Some ''intelhex'')
         else
           (case fs filename of
              None \<Rightarrow> Inl OSError
            | Some text \<Rightarrow> Inr None))"

text \<open>
  \<open>_import_hex\<close>. \<open>import_hex_line\<close> is the body of the loop over the lines: the bytes
  that one line appends to \<open>bb\<close>.
\<close>

definition import_hex_line :: "string \<Rightarrow> byte list" where
  "import_hex_line line0 =
     (let line = strip line0
      in if length line = 0 \<or> hd line = CHR ''#'' then []
         else map int16 (findall_pairs line))"

definition import_hex :: "filesystem \<Rightarrow> string \<Rightarrow> exn + byte list" where
  "import_hex fs filename =
     (case fs filename of
        None \<Rightarrow> Inl OSError
      | Some text \<Rightarrow> Inr (foldl (\<lambda>bb line. bb @ import_hex_line line) [] (readlines text)))"

subsection \<open>The rest of bincopy\<close>

text \<open>
  The file readers and the renderers of \<open>bincopy.BinFile\<close> are not part of the source tree
  and are taken as parameters. A reader gets the file system, the file name and the store,
  and gives back the exception it raised, if any, and the store as it left it. A renderer
  gets the store (\<open>as_binary\<close> also its \<open>minimum_address\<close> argument, \<open>None\<close> when it is
  left out) and gives back what it returns or the exception it raises.
\<close>

record bincopy =
  add_srec_file :: "filesystem \<Rightarrow> string \<Rightarrow> segment list \<Rightarrow> exn option \<times> segment list"
  add_ihex_file :: "filesystem \<Rightarrow> string \<Rightarrow> segment list \<Rightarrow> exn option \<times> segment list"
  add_binary_file ::
    "filesystem \<Rightarrow> string \<Rightarrow> int \<Rightarrow> segment list \<Rightarrow> exn option \<times> segment list"
  as_hexdump :: "segment list \<Rightarrow> string"
  as_ihex :: "segment list \<Rightarrow> exn + string"
  as_srec :: "segment list \<Rightarrow> exn + string"
  as_binary :: "segment list \<Rightarrow> int option \<Rightarrow> exn + byte list"

text \<open>
  Step 2 of \<open>readfile\<close> and of \<open>scanfile\<close>: the file is read into the store according to
  its type; the result is the exception raised, if any, and the store afterwards.
\<close>

definition read_into_binfile ::
  "bincopy \<Rightarrow> filesystem \<Rightarrow> string option \<Rightarrow> string \<Rightarrow> int \<Rightarrow> segment list \<Rightarrow>
   exn option \<times> segment list" where
  "read_into_binfile L fs ftype filename addr segs =
     (if ftype = Some ''srecord'' then add_srec_file L fs filename segs
      else if ftype = Some ''binary'' then add_binary_file L fs filename addr segs
      else if ftype = Some ''intelhex'' then add_ihex_file L fs filename segs
      else if ftype = Some ''hex'' then
        (case import_hex fs filename of
           Inl x \<Rightarrow> (Some x, segs)
         | Inr bb \<Rightarrow>
             (case add_binary segs bb addr of
                Inl x \<Rightarrow> (Some x, segs)
              | Inr segs' \<Rightarrow> (None, segs')))
      else (Some (Error (UnknownFileType filename)), segs))"

text \<open>Step 3 of \<open>readfile\<close>: every run of the store is written to the image.\<close>

fun add_segments_to_image :: "EPROM \<Rightarrow> segment list \<Rightarrow> exn option \<times> EPROM" where
  "add_segments_to_image e [] = (None, e)"
| "add_segments_to_image e ((addr, data) # rest) =
     (case add_bytes_to_image e addr data of
        (Some x, e') \<Rightarrow> (Some x, e')
      | (None, e') \<Rightarrow> add_segments_to_image e' rest)"

text \<open>
  \<open>readfile(filename, addr=0)\<close>. \<open>except bincopy.Error as error: raise Error(error)\<close> turns
  a \<open>bincopy.Error\<close> of step 2 into \<open>Error\<close>; every other exception passes.
\<close>

definition readfile ::
  "bincopy \<Rightarrow> filesystem \<Rightarrow> EPROM \<Rightarrow> string \<Rightarrow> int \<Rightarrow> (exn + string) \<times> EPROM" where
  "readfile L fs e filename addr =
     (case get_filetype fs filename of
        Inl x \<Rightarrow> (Inl x, e)
      | Inr ftype \<Rightarrow>
          (case read_into_binfile L fs ftype filename addr (binfile e) of
             (Some x, segs) \<Rightarrow>
               (Inl (if x = BincopyError then Error FromBincopy else x), e\<lparr>binfile := segs\<rparr>)
           | (None, segs) \<Rightarrow>
               (case add_segments_to_image (e\<lparr>binfile := segs\<rparr>) segs of
                  (Some x, e') \<Rightarrow> (Inl x, e')
                | (None, e') \<Rightarrow> (Inr (case ftype of Some t \<Rightarrow> t | None \<Rightarrow> []), e'))))"

text \<open>
  \<open>scanfile\<close>. The store is a fresh \<open>BinFile\<close>, the base address the default 0, and no
  exception is converted. \<open>maximum_address - 1\<close> raises \<open>TypeError\<close> when the store is empty.
\<close>

definition scanfile ::
  "bincopy \<Rightarrow> filesystem \<Rightarrow> string \<Rightarrow>
   exn + (string \<times> int \<times> int \<times> int \<times> (int \<times> int \<times> int) list \<times> string)" where
  "scanfile L fs filename =
     (case get_filetype fs filename of
        Inl x \<Rightarrow> Inl x
      | Inr ftype \<Rightarrow>
          (case read_into_binfile L fs ftype filename 0 [] of
             (Some x, segs) \<Rightarrow> Inl x
           | (None, segs) \<Rightarrow>
               (let chunks = map (\<lambda>(addr, data).
                                    (addr, addr + int (length data) - 1, int (length data))) segs
                in case (minimum_address segs, maximum_address segs) of
                     (Some astart, Some amax) \<Rightarrow>
                       (let aend = amax - 1;
                            alen = aend - astart + 1
                        in Inr (case ftype of Some t \<Rightarrow> t | None \<Rightarrow> [],
                                astart, aend, alen, chunks, as_hexdump L segs))
                   | _ \<Rightarrow> Inl TypeError)))"

subsection \<open>Export\<close>
















subsection \<open>Raw Hex as the specification words it\<close>









subsection \<open>Instances for closed examples\<close>

text \<open>One past the last address of a run.\<close>

definition seg_end :: "segment \<Rightarrow> int" where
  "seg_end s = fst s + int (length (snd s))"

text \<open>
  An instance of the library parameter whose readers add nothing and whose renderers give
  empty text (\<open>as_binary\<close>: the bytes of the runs), for examples that do not go through the
  library.
\<close>

definition bincopy_stub :: bincopy where
  "bincopy_stub =
     \<lparr>add_srec_file = (\<lambda>fs name segs. (None, segs)),
      add_ihex_file = (\<lambda>fs name segs. (None, segs)),
      add_binary_file = (\<lambda>fs name addr segs. (None, segs)),
      as_hexdump = (\<lambda>segs. []),
      as_ihex = (\<lambda>segs. Inr []),
      as_srec = (\<lambda>segs. Inr []),
      as_binary = (\<lambda>segs lowest. Inr (concat (map snd segs)))\<rparr>"

text \<open>
  A file system with one Raw Hex file: a comment line, a line with two bytes, and a last
  line without line end.
\<close>

definition echo_fs :: filesystem where
  "echo_fs = (\<lambda>name. if name = ''echo.hex'' then Some ''# c\<newline>01 02\<newline>fF'' else None)"

text \<open>
  A file system with one Intel Hex file of two data records, one byte at address 0 and one
  at address 0x0A, and an instance of the library parameter whose Intel Hex reader gives
  these two runs for that file (and fails on any other).
\<close>

definition gap_fs :: filesystem where
  "gap_fs = (\<lambda>name. if name = ''gap.ihex''
       then Some '':0100000001FE\<newline>:01000A0002F3\<newline>:00000001FF\<newline>'' else None)"

definition gap_bincopy :: bincopy where
  "gap_bincopy =
     \<lparr>add_srec_file = (\<lambda>fs name segs. (None, segs)),
      add_ihex_file = (\<lambda>fs name segs.
         if name = ''gap.ihex'' \<and> segs = [] then (None, [(0, [0x01]), (0x0A, [0x02])])
         else (Some BincopyError, segs)),
      add_binary_file = (\<lambda>fs name addr segs. (None, segs)),
      as_hexdump = (\<lambda>segs. []),
      as_ihex = (\<lambda>segs. Inr []),
      as_srec = (\<lambda>segs. Inr []),
      as_binary = (\<lambda>segs lowest. Inr (concat (map snd segs)))\<rparr>"

section \<open>The checksum\<close>

lemma and_0xFFFF: "(x::int) AND 0xFFFF = x mod 0x10000"
proof -
  have "x AND mask 16 = x mod 2 ^ 16"
    by (simp only: take_bit_eq_mask [symmetric] take_bit_eq_mod)
  then show ?thesis
    by (simp add: mask_eq_exp_minus_1)
qed

lemma sum_uint_replicate: "sum_list (map uint (replicate n (b::byte))) = int n * uint b"
  by (induction n) (simp_all add: algebra_simps)

lemma sum_uint_splice:
  assumes "i + length d \<le> length img"
  shows "sum_list (map uint (take i img @ d @ drop (i + length d) img)) =
         sum_list (map uint img) + (sum_list (map uint d) -
           sum_list (map uint (take (length d) (drop i img))))"
proof -
  have "img = take i img @ take (length d) (drop i img) @ drop (i + length d) img"
    by (metis add.commute append_take_drop_id drop_drop)
  then have "sum_list (map uint img) =
      sum_list (map uint (take i img)) + sum_list (map uint (take (length d) (drop i img)))
        + sum_list (map uint (drop (i + length d) img))"
    by (metis add.assoc map_append sum_list.append)
  then show ?thesis by simp
qed

lemma add_bytes_to_image_None:
  assumes "add_bytes_to_image e addr d = (None, e')"
  shows "offset e \<le> addr \<and> addr - offset e + int (length d) \<le> size_EPROM e \<and>
         e' = e\<lparr>image_EPROM := take (nat (addr - offset e)) (image_EPROM e) @ d @
                  drop (nat (addr - offset e) + length d) (image_EPROM e)\<rparr>"
  using assms
  by (auto simp: add_bytes_to_image_def Let_def nat_add_distrib split: if_splits)

lemma checksum_after_write:
  assumes inv: "length (image_EPROM e) = nat (size_EPROM e)"
    and ok: "add_bytes_to_image e addr [b] = (None, e')"
  shows "checksum e' =
         (checksum e + (uint b - uint (image_EPROM e ! nat (addr - offset e)))) mod 0x10000"
proof -
  let ?i = "nat (addr - offset e)"
  let ?img = "image_EPROM e"
  from add_bytes_to_image_None [OF ok] have ge: "offset e \<le> addr"
    and le: "addr - offset e + 1 \<le> size_EPROM e"
    and e': "e' = e\<lparr>image_EPROM := take ?i ?img @ [b] @ drop (?i + 1) ?img\<rparr>"
    by simp_all
  from ge le inv have i: "?i < length ?img" by simp
  then have t: "take 1 (drop ?i ?img) = [?img ! ?i]"
    by (simp add: take_Suc_conv_app_nth Cons_nth_drop_Suc [symmetric])
  from i have "?i + length [b] \<le> length ?img" by simp
  from sum_uint_splice [OF this] t
  have "sum_list (map uint (image_EPROM e')) =
        sum_list (map uint ?img) + (uint b - uint (?img ! ?i))"
    by (simp add: e')
  then show ?thesis
    by (simp add: checksum_def and_0xFFFF mod_add_left_eq)
qed

text \<open>
  Claim C3. For every image, \<open>checksum()\<close> is the unsigned sum of all bytes of the buffer
  modulo \<open>0x10000\<close>. A freshly created image of capacity \<open>C\<close> has the checksum
  \<open>(0xFF * C) mod 0x10000\<close>. Writing one byte \<open>b\<close> into the image changes the checksum by
  the signed difference between \<open>b\<close> and the byte that was there, modulo \<open>0x10000\<close>.
\<close>

theorem checksum_truncated_sum:
  "checksum e = sum_list (map uint (image_EPROM e)) mod 0x10000 \<and>
   (0 \<le> C \<longrightarrow> checksum (EPROM_init C off) = (0xFF * C) mod 0x10000) \<and>
   (EPROM_inv e \<longrightarrow> add_bytes_to_image e addr [b] = (None, e') \<longrightarrow>
      checksum e' =
        (checksum e + (uint b - uint (image_EPROM e ! nat (addr - offset e)))) mod 0x10000)"
proof (intro conjI impI)
  show "checksum e = sum_list (map uint (image_EPROM e)) mod 0x10000"
    by (simp add: checksum_def and_0xFFFF)
next
  assume "0 \<le> C"
  then show "checksum (EPROM_init C off) = (0xFF * C) mod 0x10000"
    by (simp add: checksum_def and_0xFFFF EPROM_init_def sum_list_replicate mult.commute)
next
  assume "EPROM_inv e" and "add_bytes_to_image e addr [b] = (None, e')"
  then show "checksum e' =
      (checksum e + (uint b - uint (image_EPROM e ! nat (addr - offset e)))) mod 0x10000"
    by (simp add: EPROM_inv_def checksum_after_write)
qed

theorem checksum_truncated_sum_witness:
  "(0::int) \<le> 16 \<and> EPROM_inv (EPROM_init 16 0) \<and>
   add_bytes_to_image (EPROM_init 16 0) 6 [0x61] =
     (None, (EPROM_init 16 0)\<lparr>image_EPROM := replicate 6 0xFF @ [0x61] @ replicate 9 0xFF\<rparr>) \<and>
   checksum (EPROM_init 16 0) = 0xFF0 \<and>
   checksum ((EPROM_init 16 0)\<lparr>image_EPROM := replicate 6 0xFF @ [0x61] @ replicate 9 0xFF\<rparr>)
     = 0xFF0 + (0x61 - 0xFF)"
proof -
  let ?e = "EPROM_init 16 0"
  let ?e' = "?e\<lparr>image_EPROM := replicate 6 0xFF @ [0x61] @ replicate 9 0xFF\<rparr>"
  have inv: "EPROM_inv ?e"
    by (simp add: EPROM_inv_def EPROM_init_def store_inv_def)
  have w: "add_bytes_to_image ?e 6 [0x61] = (None, ?e')"
    by (simp add: add_bytes_to_image_def EPROM_init_def Let_def)
  have nth: "image_EPROM ?e ! nat (6 - offset ?e) = 0xFF"
    by (simp add: EPROM_init_def)
  from checksum_truncated_sum [of ?e 16 0 6 "0x61" ?e'] inv w nth
  have "checksum ?e = 0xFF0" and "checksum ?e' = (checksum ?e + (0x61 - 0xFF)) mod 0x10000"
    by simp_all
  with inv w show ?thesis by simp
qed

section \<open>The 16-byte scenario\<close>

text \<open>
  \<open>main\<close> builds \<open>EPROM(16)\<close> and calls \<open>add_bytes(6, b'ab')\<close>. The claim gives the
  checksum afterwards as \<open>0xF6B\<close>; the sum it writes out, \<open>0xFF*14 + 0x61 + 0x62\<close>, is
  \<open>0xEB5\<close>, and that is what \<open>checksum\<close> returns.
\<close>

theorem scenario16_checksum_not_0xF6B:
  "checksum (snd (add_bytes (EPROM_init 16 0) 6 [0x61, 0x62])) \<noteq> 0xF6B"
  by (simp add: add_bytes_def add_binary_def collides_def add_bytes_to_image_def EPROM_init_def
      checksum_def and_0xFFFF Let_def sum_list_replicate)

text \<open>
  Claim C4, amended. For a 16-byte image with offset 0, adding the two bytes \<open>0x61 0x62\<close> at
  address 6 succeeds; afterwards \<open>checksum()\<close> is \<open>0xFF*14 + 0x61 + 0x62 = 0xEB5\<close> and
  \<open>chunks()\<close> yields exactly the one chunk \<open>(6, [0x61, 0x62])\<close>.
\<close>

theorem scenario16_checksum_and_chunks:
  "fst (add_bytes (EPROM_init 16 0) 6 [0x61, 0x62]) = None \<and>
   checksum (snd (add_bytes (EPROM_init 16 0) 6 [0x61, 0x62])) = 0xFF * 14 + 0x61 + 0x62 \<and>
   checksum (snd (add_bytes (EPROM_init 16 0) 6 [0x61, 0x62])) = 0xEB5 \<and>
   chunks (snd (add_bytes (EPROM_init 16 0) 6 [0x61, 0x62])) = [(6, [0x61, 0x62])]"
  by (simp add: add_bytes_def add_binary_def collides_def add_bytes_to_image_def EPROM_init_def
      checksum_def chunks_def and_0xFFFF Let_def sum_list_replicate)

section \<open>The segment store\<close>

lemma collides_Cons: "collides (s # segs) a d = (overlaps a d s \<or> collides segs a d)"
  by (simp add: collides_def)

lemma collides_iff: "collides segs a d = (\<exists>s\<in>set segs. overlaps a d s)"
  by (simp add: collides_def list_ex_iff)

lemma store_inv_Cons:
  "store_inv (s # segs) =
     (snd s \<noteq> [] \<and> (\<forall>t\<in>set segs. fst s + int (length (snd s)) \<le> fst t) \<and> store_inv segs)"
  by (auto simp: store_inv_def)

lemma store_inv_Nil: "store_inv []"
  by (simp add: store_inv_def)

lemma insert_seg_covers:
  "a \<le> x \<Longrightarrow> x < a + int (length d) \<Longrightarrow> \<exists>s\<in>set (insert_seg a d segs). covers s x"
proof (induction a d segs rule: insert_seg.induct)
  case (1 a d)
  then show ?case by (simp add: covers_def)
next
  case (2 a d b e rest)
  then show ?case by (auto simp: covers_def)
qed

lemma fst_insert_seg: "fst ` set (insert_seg a d segs) \<subseteq> insert a (fst ` set segs)"
  by (induction a d segs rule: insert_seg.induct) (auto split: if_splits)

lemma insert_seg_lower:
  assumes "m \<le> a" and "\<forall>s\<in>set segs. m \<le> fst s" and "t \<in> set (insert_seg a d segs)"
  shows "m \<le> fst t"
proof -
  from assms(3) have "fst t \<in> insert a (fst ` set segs)"
    using fst_insert_seg by blast
  with assms(1,2) show ?thesis by auto
qed

lemma merged_no_collision:
  assumes sorted: "\<forall>t\<in>set rest. b + int (length e) \<le> fst t"
    and rest: "store_inv rest" and ncol: "\<not> collides rest a d"
    and a: "b + int (length e) = a"
  shows "\<not> collides rest b (e @ d)"
proof
  assume "collides rest b (e @ d)"
  then obtain t where t: "t \<in> set rest" and ov: "overlaps b (e @ d) t"
    by (auto simp: collides_iff)
  from t ncol have "\<not> overlaps a d t" by (auto simp: collides_iff)
  moreover from t sorted have "b + int (length e) \<le> fst t" by blast
  moreover from t rest have "0 < length (snd t)" by (auto simp: store_inv_def list_all_iff)
  ultimately show False using ov a by (auto simp: overlaps_def)
qed

lemma store_inv_insert:
  "store_inv segs \<Longrightarrow> d \<noteq> [] \<Longrightarrow> \<not> collides segs a d \<Longrightarrow> store_inv (insert_seg a d segs)"
proof (induction a d segs rule: insert_seg.induct)
  case (1 a d)
  then show ?case by (simp add: store_inv_def)
next
  case (2 a d b e rest)
  from "2.prems" have e: "e \<noteq> []" and sorted: "\<forall>t\<in>set rest. b + int (length e) \<le> fst t"
    and rest: "store_inv rest" and nov: "\<not> overlaps a d (b, e)" and ncol: "\<not> collides rest a d"
    by (simp_all add: store_inv_Cons collides_Cons)
  consider (before) "a + int (length d) < b"
    | (touch_before) "a + int (length d) = b"
    | (touch_after) "\<not> a + int (length d) < b" "a + int (length d) \<noteq> b" "b + int (length e) = a"
    | (after) "\<not> a + int (length d) < b" "a + int (length d) \<noteq> b" "b + int (length e) \<noteq> a"
    by blast
  then show ?case
  proof cases
    case before
    with "2.prems" sorted show ?thesis
      by (force simp: store_inv_Cons)
  next
    case touch_before
    with "2.prems" sorted e rest show ?thesis
      by (force simp: store_inv_Cons)
  next
    case touch_after
    have "\<not> collides rest b (e @ d)"
      using merged_no_collision [OF sorted rest ncol] touch_after(3) by simp
    with "2.IH"(1) [OF touch_after] rest e have "store_inv (insert_seg b (e @ d) rest)" by simp
    with touch_after show ?thesis by simp
  next
    case after
    with nov have lt: "b + int (length e) < a" by (auto simp: overlaps_def)
    from "2.IH"(2) [OF after] rest "2.prems"(2) ncol have "store_inv (insert_seg a d rest)" by simp
    moreover have "\<forall>t\<in>set (insert_seg a d rest). b + int (length e) \<le> fst t"
      using insert_seg_lower [of "b + int (length e)" a rest _ d] lt sorted by auto
    ultimately show ?thesis using after e by (simp add: store_inv_Cons)
  qed
qed

lemma byte_at_Cons:
  "byte_at (s # segs) x = (if covers s x then Some (snd s ! nat (x - fst s)) else byte_at segs x)"
  by (simp add: byte_at_def)

lemma byte_at_Nil: "byte_at [] x = None"
  by (simp add: byte_at_def)

lemma byte_at_None: "\<forall>s\<in>set segs. \<not> covers s x \<Longrightarrow> byte_at segs x = None"
  by (induction segs) (simp_all add: byte_at_Cons byte_at_Nil)

lemma byte_at_insert:
  "store_inv segs \<Longrightarrow> d \<noteq> [] \<Longrightarrow> \<not> collides segs a d \<Longrightarrow>
   byte_at (insert_seg a d segs) x =
     (if a \<le> x \<and> x < a + int (length d) then Some (d ! nat (x - a)) else byte_at segs x)"
proof (induction a d segs rule: insert_seg.induct)
  case (1 a d)
  then show ?case by (simp add: byte_at_Cons byte_at_Nil covers_def)
next
  case (2 a d b e rest)
  from "2.prems" have e: "e \<noteq> []" and sorted: "\<forall>t\<in>set rest. b + int (length e) \<le> fst t"
    and rest: "store_inv rest" and nov: "\<not> overlaps a d (b, e)" and ncol: "\<not> collides rest a d"
    by (simp_all add: store_inv_Cons collides_Cons)
  consider (before) "a + int (length d) < b"
    | (touch_before) "a + int (length d) = b"
    | (touch_after) "\<not> a + int (length d) < b" "a + int (length d) \<noteq> b" "b + int (length e) = a"
    | (after) "\<not> a + int (length d) < b" "a + int (length d) \<noteq> b" "b + int (length e) \<noteq> a"
    by blast
  then show ?case
  proof cases
    case before
    then show ?thesis by (simp add: byte_at_Cons covers_def)
  next
    case touch_before
    have "\<forall>t\<in>set rest. \<not> covers t x" if "x < b + int (length e)"
      using that sorted by (auto simp: covers_def)
    moreover have "nat (x - a) - length d = nat (x - (a + int (length d)))"
      by arith
    ultimately show ?thesis using touch_before
      by (auto simp: byte_at_Cons covers_def nth_append nat_less_iff)
  next
    case touch_after
    have "\<not> collides rest b (e @ d)"
      using merged_no_collision [OF sorted rest ncol] touch_after(3) by simp
    with "2.IH"(1) [OF touch_after] rest e
    have "byte_at (insert_seg b (e @ d) rest) x =
       (if b \<le> x \<and> x < b + int (length (e @ d)) then Some ((e @ d) ! nat (x - b)) else byte_at rest x)"
      by simp
    moreover have "nat (x - b) - length e = nat (x - (b + int (length e)))"
      by arith
    ultimately show ?thesis using touch_after
      by (auto simp: byte_at_Cons covers_def nth_append nat_less_iff)
  next
    case after
    with nov have lt: "b + int (length e) < a" by (auto simp: overlaps_def)
    from "2.IH"(2) [OF after] rest "2.prems"(2) ncol
    have ih: "byte_at (insert_seg a d rest) x =
       (if a \<le> x \<and> x < a + int (length d) then Some (d ! nat (x - a)) else byte_at rest x)"
      by simp
    show ?thesis using after ih lt
      by (auto simp: byte_at_Cons covers_def)
  qed
qed

section \<open>Adding bytes\<close>

lemma splice_nth:
  assumes "i + length d \<le> length img" and "k < length img"
  shows "(take i img @ d @ drop (i + length d) img) ! k =
         (if i \<le> k \<and> k < i + length d then d ! (k - i) else img ! k)"
proof -
  from assms have "min (length img) i = i" by simp
  moreover have "i + length d + (k - i - length d) = k" if "i + length d \<le> k"
    using that by simp
  ultimately show ?thesis using assms
    by (auto simp: nth_append)
qed

lemma splice_length:
  "i + length d \<le> length img \<Longrightarrow> length (take i img @ d @ drop (i + length d) img) = length img"
  by simp

lemma EPROM_init_inv: "EPROM_inv (EPROM_init size_arg offset_arg)"
  by (simp add: EPROM_inv_def EPROM_init_def store_inv_def)

lemma add_bytes_to_image_inv:
  "EPROM_inv e \<Longrightarrow> EPROM_inv (snd (add_bytes_to_image e addr d))"
  by (auto simp: add_bytes_to_image_def Let_def EPROM_inv_def)

lemma add_bytes_None:
  assumes "add_bytes e a d = (None, e')"
  shows "(d = [] \<or> \<not> collides (binfile e) a d) \<and>
         offset e \<le> a \<and> a - offset e + int (length d) \<le> size_EPROM e \<and>
         e' = e\<lparr>binfile := (if d = [] then binfile e else insert_seg a d (binfile e)),
                image_EPROM := take (nat (a - offset e)) (image_EPROM e) @ d @
                  drop (nat (a - offset e) + length d) (image_EPROM e)\<rparr>"
proof (cases "d = [] \<or> \<not> collides (binfile e) a d")
  case False
  with assms show ?thesis by (simp add: add_bytes_def add_binary_def)
next
  case True
  then have "add_binary (binfile e) d a = Inr (if d = [] then binfile e else insert_seg a d (binfile e))"
    by (auto simp: add_binary_def)
  with assms have "add_bytes_to_image
      (e\<lparr>binfile := (if d = [] then binfile e else insert_seg a d (binfile e))\<rparr>) a d = (None, e')"
    by (simp add: add_bytes_def)
  from add_bytes_to_image_None [OF this] True show ?thesis by simp
qed

lemma add_bytes_inv:
  assumes "EPROM_inv e"
  shows "EPROM_inv (snd (add_bytes e a d))"
proof (cases "add_binary (binfile e) d a")
  case (Inl x)
  with assms show ?thesis by (simp add: add_bytes_def)
next
  case (Inr segs)
  with assms have "store_inv segs"
    by (auto simp: add_binary_def EPROM_inv_def store_inv_insert split: if_splits)
  with assms have "EPROM_inv (e\<lparr>binfile := segs\<rparr>)" by (simp add: EPROM_inv_def)
  from add_bytes_to_image_inv [OF this] Inr show ?thesis by (simp add: add_bytes_def)
qed

lemma covered_collides:
  assumes "s \<in> set segs" and "covers s x" and "d \<noteq> []"
  shows "collides segs x d"
proof -
  from assms(2,3) have "overlaps x d s"
    by (cases d) (auto simp: overlaps_def covers_def)
  with assms(1) show ?thesis by (auto simp: collides_iff)
qed

lemma not_collides_not_covered:
  assumes "\<not> collides segs c d" and "c \<le> x" and "x < c + int (length d)"
  shows "\<forall>s\<in>set segs. \<not> covers s x"
  using assms by (auto simp: collides_iff overlaps_def covers_def)

section \<open>Collisions\<close>

lemma add_bytes_first_run:
  assumes inv: "EPROM_inv e" and first: "add_bytes e A d = (None, e1)"
    and x: "A \<le> x" "x < A + int (length d)"
  shows "byte_at (binfile e1) x = Some (d ! nat (x - A))"
    and "image_EPROM e1 ! nat (x - offset e1) = d ! nat (x - A)"
    and "\<exists>s\<in>set (binfile e1). covers s x"
    and "nat (x - offset e1) < length (image_EPROM e1)"
    and "offset e1 \<le> x"
proof -
  from x have d: "d \<noteq> []" by auto
  note f = add_bytes_None [OF first]
  from f d have ncol: "\<not> collides (binfile e) A d" and segs: "binfile e1 = insert_seg A d (binfile e)"
    and off: "offset e1 = offset e" by auto
  from inv have st: "store_inv (binfile e)" and len: "length (image_EPROM e) = nat (size_EPROM e)"
    by (simp_all add: EPROM_inv_def)
  show "byte_at (binfile e1) x = Some (d ! nat (x - A))"
    using byte_at_insert [OF st d ncol, of x] x segs by simp
  show "\<exists>s\<in>set (binfile e1). covers s x"
    using insert_seg_covers [OF x] segs by simp
  let ?i = "nat (A - offset e)"
  from f have ge: "offset e \<le> A" and le: "A - offset e + int (length d) \<le> size_EPROM e"
    and img: "image_EPROM e1 = take ?i (image_EPROM e) @ d @ drop (?i + length d) (image_EPROM e)"
    by simp_all
  from ge le len have fit: "?i + length d \<le> length (image_EPROM e)" by simp
  from ge le len x have k: "nat (x - offset e) < length (image_EPROM e)" by simp
  from ge x have "?i \<le> nat (x - offset e)" "nat (x - offset e) < ?i + length d"
    "nat (x - offset e) - ?i = nat (x - A)" by simp_all
  with splice_nth [OF fit k] img off
  show "image_EPROM e1 ! nat (x - offset e1) = d ! nat (x - A)" by simp
  from k fit img off show "nat (x - offset e1) < length (image_EPROM e1)" by simp
  from ge x off show "offset e1 \<le> x" by simp
qed

lemma add_bytes_disjoint:
  assumes inv: "EPROM_inv e1"
    and ncol: "\<not> collides (binfile e1) C d2"
    and win: "offset e1 \<le> C" "C + int (length d2) \<le> offset e1 + size_EPROM e1"
  shows "add_bytes e1 C d2 =
      (None, e1\<lparr>binfile := (if d2 = [] then binfile e1 else insert_seg C d2 (binfile e1)),
                image_EPROM := take (nat (C - offset e1)) (image_EPROM e1) @ d2 @
                   drop (nat (C - offset e1) + length d2) (image_EPROM e1)\<rparr>)"
  using ncol win
  by (simp add: add_bytes_def add_binary_def add_bytes_to_image_def Let_def nat_add_distrib)

text \<open>
  The claim says that an add at a range disjoint from every stored run succeeds. In
  \<open>EPROM(16)\<close> holding \<open>b'ab'\<close> at 6, the one byte \<open>b'x'\<close> at address 100 touches no
  stored run, yet \<open>add_bytes\<close> raises: the range lies outside the window and
  \<open>_add_bytes_to_image\<close> checks the bounds.
\<close>

theorem disjoint_add_outside_window_fails:
  "fst (add_bytes (EPROM_init 16 0) 6 [0x61, 0x62]) = None \<and>
   \<not> collides (binfile (snd (add_bytes (EPROM_init 16 0) 6 [0x61, 0x62]))) 100 [0x78] \<and>
   fst (add_bytes (snd (add_bytes (EPROM_init 16 0) 6 [0x61, 0x62])) 100 [0x78]) =
     Some (Error (PastEnd 1 100 16))"
  by (simp add: add_bytes_def add_binary_def collides_def overlaps_def add_bytes_to_image_def
      EPROM_init_def Let_def)

text \<open>
  Claim C1, amended. Let \<open>add_bytes(A, d)\<close> succeed on an image. A second \<open>add_bytes\<close> of
  non-empty data at any address \<open>B\<close> of \<open>[A, A+len(d))\<close> raises the collision error
  (\<open>Error\<close> with the message "Error adding bytes ... at addr B") and leaves the object as it
  was. An \<open>add_bytes(C, d2)\<close> whose range is disjoint from every stored run and lies inside
  the window \<open>[offset, offset+size)\<close> succeeds, and every byte of the first run is afterwards
  what it was before, in the segment store and in the image.
\<close>

theorem add_bytes_collision_and_disjoint:
  assumes inv: "EPROM_inv e" and first: "add_bytes e A d = (None, e1)"
  shows "(A \<le> B \<and> B < A + int (length d) \<and> d' \<noteq> [] \<longrightarrow>
            add_bytes e1 B d' = (Some (Error (AddingBytes B)), e1)) \<and>
         (\<not> collides (binfile e1) C d2 \<and> offset e1 \<le> C \<and>
            C + int (length d2) \<le> offset e1 + size_EPROM e1 \<longrightarrow>
            fst (add_bytes e1 C d2) = None) \<and>
         (\<not> collides (binfile e1) C d2 \<and> offset e1 \<le> C \<and>
            C + int (length d2) \<le> offset e1 + size_EPROM e1 \<and>
            A \<le> x \<and> x < A + int (length d) \<longrightarrow>
            byte_at (binfile e1) x = Some (d ! nat (x - A)) \<and>
            byte_at (binfile (snd (add_bytes e1 C d2))) x = Some (d ! nat (x - A)) \<and>
            image_EPROM e1 ! nat (x - offset e1) = d ! nat (x - A) \<and>
            image_EPROM (snd (add_bytes e1 C d2)) ! nat (x - offset e1) = d ! nat (x - A))"
proof (intro conjI impI)
  assume "A \<le> B \<and> B < A + int (length d) \<and> d' \<noteq> []"
  then have B: "A \<le> B" "B < A + int (length d)" and d': "d' \<noteq> []" by simp_all
  from add_bytes_first_run(3) [OF inv first B] obtain s
    where "s \<in> set (binfile e1)" "covers s B" by blast
  then have "collides (binfile e1) B d'" using d' by (rule covered_collides)
  with d' show "add_bytes e1 B d' = (Some (Error (AddingBytes B)), e1)"
    by (simp add: add_bytes_def add_binary_def)
next
  assume h: "\<not> collides (binfile e1) C d2 \<and> offset e1 \<le> C \<and>
            C + int (length d2) \<le> offset e1 + size_EPROM e1"
  from inv first have inv1: "EPROM_inv e1" using add_bytes_inv [of e A d] by simp
  from h show "fst (add_bytes e1 C d2) = None"
    using add_bytes_disjoint [OF inv1] by simp
next
  assume hx: "\<not> collides (binfile e1) C d2 \<and> offset e1 \<le> C \<and>
            C + int (length d2) \<le> offset e1 + size_EPROM e1 \<and>
            A \<le> x \<and> x < A + int (length d)"
  then have h: "\<not> collides (binfile e1) C d2" "offset e1 \<le> C"
      "C + int (length d2) \<le> offset e1 + size_EPROM e1"
    and x: "A \<le> x" "x < A + int (length d)" by simp_all
  from inv first have inv1: "EPROM_inv e1" using add_bytes_inv [of e A d] by simp
  note second = add_bytes_disjoint [OF inv1 h]
  note r = add_bytes_first_run [OF inv first x]
  from r(3) h(1) have out: "\<not> (C \<le> x \<and> x < C + int (length d2))"
    using not_collides_not_covered [of "binfile e1" C d2 x] by blast
  from inv1 have st1: "store_inv (binfile e1)"
    and len1: "length (image_EPROM e1) = nat (size_EPROM e1)"
    by (simp_all add: EPROM_inv_def)
  have s1: "byte_at (binfile (snd (add_bytes e1 C d2))) x = Some (d ! nat (x - A))"
  proof (cases "d2 = []")
    case True
    with second r(1) show ?thesis by simp
  next
    case False
    from byte_at_insert [OF st1 False h(1), of x] out second False r(1)
    show ?thesis by simp
  qed
  let ?j = "nat (C - offset e1)"
  from h len1 have fit: "?j + length d2 \<le> length (image_EPROM e1)" by auto
  from h out r(5) have "\<not> (?j \<le> nat (x - offset e1) \<and> nat (x - offset e1) < ?j + length d2)"
    by auto
  with splice_nth [OF fit r(4)] second r(2)
  have s2: "image_EPROM (snd (add_bytes e1 C d2)) ! nat (x - offset e1) = d ! nat (x - A)"
    by simp
  show "byte_at (binfile e1) x = Some (d ! nat (x - A))" by (rule r(1))
  show "byte_at (binfile (snd (add_bytes e1 C d2))) x = Some (d ! nat (x - A))" by (rule s1)
  show "image_EPROM e1 ! nat (x - offset e1) = d ! nat (x - A)" by (rule r(2))
  show "image_EPROM (snd (add_bytes e1 C d2)) ! nat (x - offset e1) = d ! nat (x - A)"
    by (rule s2)
qed

theorem add_bytes_collision_and_disjoint_witness:
  "EPROM_inv (EPROM_init 16 0) \<and>
   add_bytes (EPROM_init 16 0) 6 [0x61, 0x62] =
     (None, \<lparr>offset = 0, size_EPROM = 16,
             image_EPROM = replicate 6 0xFF @ [0x61, 0x62] @ replicate 8 0xFF,
             binfile = [(6, [0x61, 0x62])]\<rparr>) \<and>
   add_bytes \<lparr>offset = 0, size_EPROM = 16,
             image_EPROM = replicate 6 0xFF @ [0x61, 0x62] @ replicate 8 0xFF,
             binfile = [(6, [0x61, 0x62])]\<rparr> 7 [0x00] =
     (Some (Error (AddingBytes 7)),
      \<lparr>offset = 0, size_EPROM = 16,
       image_EPROM = replicate 6 0xFF @ [0x61, 0x62] @ replicate 8 0xFF,
       binfile = [(6, [0x61, 0x62])]\<rparr>) \<and>
   \<not> collides [(6, [0x61, 0x62])] 10 [0x78] \<and>
   fst (add_bytes \<lparr>offset = 0, size_EPROM = 16,
             image_EPROM = replicate 6 0xFF @ [0x61, 0x62] @ replicate 8 0xFF,
             binfile = [(6, [0x61, 0x62])]\<rparr> 10 [0x78]) = None \<and>
   byte_at (binfile (snd (add_bytes \<lparr>offset = 0, size_EPROM = 16,
             image_EPROM = replicate 6 0xFF @ [0x61, 0x62] @ replicate 8 0xFF,
             binfile = [(6, [0x61, 0x62])]\<rparr> 10 [0x78]))) 7 = Some 0x62 \<and>
   image_EPROM (snd (add_bytes \<lparr>offset = 0, size_EPROM = 16,
             image_EPROM = replicate 6 0xFF @ [0x61, 0x62] @ replicate 8 0xFF,
             binfile = [(6, [0x61, 0x62])]\<rparr> 10 [0x78])) ! 7 = 0x62"
proof -
  let ?e = "EPROM_init 16 0"
  let ?e1 = "\<lparr>offset = 0, size_EPROM = 16,
             image_EPROM = replicate 6 0xFF @ [0x61, 0x62] @ replicate 8 (0xFF::byte),
             binfile = [(6, [0x61, 0x62])]\<rparr>"
  have inv: "EPROM_inv ?e"
    by (simp add: EPROM_inv_def EPROM_init_def store_inv_def)
  have first: "add_bytes ?e 6 [0x61, 0x62] = (None, ?e1)"
    by (simp add: add_bytes_def add_binary_def collides_def add_bytes_to_image_def
        EPROM_init_def Let_def)
  have ncol: "\<not> collides [(6, [0x61, 0x62])] 10 [0x78]"
    by (simp add: collides_def overlaps_def)
  note t = add_bytes_collision_and_disjoint [OF inv first, of 7 "[0x00]" 10 "[0x78]" 7]
  from t have a: "add_bytes ?e1 7 [0x00] = (Some (Error (AddingBytes 7)), ?e1)"
    by simp
  from t ncol have b: "fst (add_bytes ?e1 10 [0x78]) = None"
    by simp
  from t ncol have c: "byte_at (binfile (snd (add_bytes ?e1 10 [0x78]))) 7 = Some 0x62"
    and d: "image_EPROM (snd (add_bytes ?e1 10 [0x78])) ! 7 = 0x62"
    by simp_all
  from inv first a ncol b c d show ?thesis by simp
qed

section \<open>The window\<close>




section \<open>A bounds failure after the store was updated\<close>

lemma byte_at_shift:
  "byte_at (map (\<lambda>(a, d). (a - off, d)) segs) r = byte_at segs (r + off)"
proof (induction segs)
  case Nil
  show ?case by (simp add: byte_at_Nil)
next
  case (Cons s segs)
  obtain a d where s: "s = (a, d)" by (cases s)
  have "nat (r - (a - off)) = nat (r + off - a)" by (simp add: algebra_simps)
  with Cons s show ?case
    by (auto simp: byte_at_Cons covers_def)
qed

lemma byte_at_chunks: "byte_at (chunks e) r = byte_at (binfile e) (r + offset e)"
  by (simp add: chunks_def byte_at_shift)




section \<open>Chunks\<close>

lemma store_inv_sorted:
  "store_inv segs \<Longrightarrow> sorted_wrt (<) (map fst segs)"
proof (induction segs)
  case Nil
  show ?case by simp
next
  case (Cons s segs)
  from Cons.prems have ne: "snd s \<noteq> []"
    and le: "\<forall>t\<in>set segs. fst s + int (length (snd s)) \<le> fst t"
    and rest: "store_inv segs"
    by (simp_all add: store_inv_Cons)
  have "fst s < fst t" if "t \<in> set segs" for t
  proof -
    from that le have "fst s + int (length (snd s)) \<le> fst t" by blast
    moreover from ne have "0 < length (snd s)" by blast
    ultimately show ?thesis by linarith
  qed
  then have "\<forall>t\<in>set segs. fst s < fst t" by blast
  with Cons.IH [OF rest] show ?case by simp
qed

lemma chunks_sorted:
  assumes "EPROM_inv e"
  shows "sorted_wrt (<) (map fst (chunks e))"
proof -
  from assms have "sorted_wrt (<) (map fst (binfile e))"
    by (simp add: EPROM_inv_def store_inv_sorted)
  moreover have "map fst (chunks e) = map (\<lambda>a. a - offset e) (map fst (binfile e))"
    by (simp add: chunks_def case_prod_beta)
  ultimately show ?thesis
    by (simp add: sorted_wrt_map)
qed

lemma scen: "add_bytes (snd (add_bytes (EPROM_init 512 0) 0 [0x61, 0x62])) 0x20 [0x78, 0x79, 0x7A]
  = (None, \<lparr>offset = 0, size_EPROM = 512,
       image_EPROM = [0x61, 0x62] @ replicate 30 0xFF @ [0x78, 0x79, 0x7A] @ replicate 477 0xFF,
       binfile = [(0, [0x61, 0x62]), (0x20, [0x78, 0x79, 0x7A])]\<rparr>)"
  by (simp add: add_bytes_def add_binary_def collides_def overlaps_def add_bytes_to_image_def
      EPROM_init_def Let_def)

lemma main_two_chunks_eq:
  "main_two_chunks = \<lparr>offset = 0, size_EPROM = 512,
       image_EPROM = [0x61, 0x62] @ replicate 30 0xFF @ [0x78, 0x79, 0x7A] @ replicate 477 0xFF,
       binfile = [(0, [0x61, 0x62]), (0x20, [0x78, 0x79, 0x7A])]\<rparr>"
  by (simp add: main_two_chunks_def scen)

lemma chunks_after_add:
  assumes inv: "EPROM_inv e" and ok: "add_bytes e a d = (None, e')"
  shows "byte_at (chunks e') r =
     (if a - offset e \<le> r \<and> r < a - offset e + int (length d)
      then Some (d ! nat (r - (a - offset e))) else byte_at (chunks e) r)"
proof (cases "d = []")
  case True
  from add_bytes_None [OF ok] True have "binfile e' = binfile e" "offset e' = offset e"
    by simp_all
  with True show ?thesis by (auto simp: byte_at_chunks)
next
  case False
  note f = add_bytes_None [OF ok]
  from f False have ncol: "\<not> collides (binfile e) a d"
    and segs: "binfile e' = insert_seg a d (binfile e)" and off: "offset e' = offset e"
    by auto
  from inv have st: "store_inv (binfile e)" by (simp add: EPROM_inv_def)
  have "nat (r + offset e - a) = nat (r - (a - offset e))" by (simp add: algebra_simps)
  with byte_at_insert [OF st False ncol, of "r + offset e"] segs off
  show ?thesis by (auto simp: byte_at_chunks)
qed

text \<open>
  Claim C5. In a 512-byte image with offset 0, after \<open>add_bytes(0, b'ab')\<close> and
  \<open>add_bytes(0x20, b'xyz')\<close> (both succeed) \<open>chunks()\<close> yields exactly the two chunks
  \<open>(0, b'ab')\<close> and \<open>(0x20, b'xyz')\<close>, in ascending order; the image bytes at 2 up to 0x1F
  are still 0xFF, and no chunk covers an address of that region. In general \<open>chunks()\<close> has
  one chunk for each stored run, with the run's data and the run's address minus the offset;
  the chunk addresses ascend; and a successful \<open>add_bytes(a, d)\<close> changes what the chunks
  cover at the relative addresses of \<open>d\<close> only, so that an address no write has covered
  stays absent from \<open>chunks()\<close>.
\<close>

theorem chunks_keep_gaps:
  "fst (add_bytes (EPROM_init 512 0) 0 [0x61, 0x62]) = None \<and>
   fst (add_bytes (snd (add_bytes (EPROM_init 512 0) 0 [0x61, 0x62])) 0x20 [0x78, 0x79, 0x7A])
     = None \<and>
   chunks main_two_chunks = [(0, [0x61, 0x62]), (0x20, [0x78, 0x79, 0x7A])] \<and>
   take 30 (drop 2 (image_EPROM main_two_chunks)) = replicate 30 0xFF \<and>
   (2 \<le> x \<and> x < 0x20 \<longrightarrow>
      image_EPROM main_two_chunks ! nat x = 0xFF \<and> byte_at (chunks main_two_chunks) x = None) \<and>
   length (chunks e) = length (binfile e) \<and>
   (i < length (binfile e) \<longrightarrow>
      fst (chunks e ! i) = fst (binfile e ! i) - offset e \<and>
      snd (chunks e ! i) = snd (binfile e ! i)) \<and>
   (EPROM_inv e \<longrightarrow> sorted_wrt (<) (map fst (chunks e))) \<and>
   (EPROM_inv e \<and> add_bytes e a d = (None, e') \<longrightarrow>
      byte_at (chunks e') r =
        (if a - offset e \<le> r \<and> r < a - offset e + int (length d)
         then Some (d ! nat (r - (a - offset e))) else byte_at (chunks e) r))"
proof (intro conjI impI)
  show "fst (add_bytes (EPROM_init 512 0) 0 [0x61, 0x62]) = None"
    by (simp add: add_bytes_def add_binary_def collides_def add_bytes_to_image_def
        EPROM_init_def Let_def)
  show "fst (add_bytes (snd (add_bytes (EPROM_init 512 0) 0 [0x61, 0x62])) 0x20
      [0x78, 0x79, 0x7A]) = None"
    by (simp add: scen)
  show "chunks main_two_chunks = [(0, [0x61, 0x62]), (0x20, [0x78, 0x79, 0x7A])]"
    by (simp add: main_two_chunks_eq chunks_def)
  show "take 30 (drop 2 (image_EPROM main_two_chunks)) = replicate 30 0xFF"
    by (simp add: main_two_chunks_eq)
  show "length (chunks e) = length (binfile e)"
    by (simp add: chunks_def)
next
  assume x: "2 \<le> x \<and> x < 0x20"
  then have "nat x - 2 < 30" "\<not> nat x < 2" by linarith+
  then show "image_EPROM main_two_chunks ! nat x = 0xFF"
    by (simp add: main_two_chunks_eq nth_append)
  from x show "byte_at (chunks main_two_chunks) x = None"
    by (simp add: main_two_chunks_eq chunks_def byte_at_Cons byte_at_Nil covers_def)
next
  assume "i < length (binfile e)"
  then show "fst (chunks e ! i) = fst (binfile e ! i) - offset e"
    and "snd (chunks e ! i) = snd (binfile e ! i)"
    by (simp_all add: chunks_def case_prod_beta)
next
  assume "EPROM_inv e"
  then show "sorted_wrt (<) (map fst (chunks e))" by (rule chunks_sorted)
next
  assume "EPROM_inv e \<and> add_bytes e a d = (None, e')"
  then show "byte_at (chunks e') r =
        (if a - offset e \<le> r \<and> r < a - offset e + int (length d)
         then Some (d ! nat (r - (a - offset e))) else byte_at (chunks e) r)"
    using chunks_after_add by blast
qed

theorem chunks_keep_gaps_witness:
  "(2::int) \<le> 17 \<and> (17::int) < 0x20 \<and>
   image_EPROM main_two_chunks ! 17 = 0xFF \<and> byte_at (chunks main_two_chunks) 17 = None \<and>
   (1::nat) < length (binfile main_two_chunks) \<and>
   fst (chunks main_two_chunks ! 1) = 0x20 \<and>
   EPROM_inv main_two_chunks \<and>
   sorted_wrt (<) (map fst (chunks main_two_chunks)) \<and>
   EPROM_inv (EPROM_init 512 0) \<and>
   add_bytes (EPROM_init 512 0) 0 [0x61, 0x62] =
     (None, \<lparr>offset = 0, size_EPROM = 512,
             image_EPROM = [0x61, 0x62] @ replicate 510 0xFF, binfile = [(0, [0x61, 0x62])]\<rparr>) \<and>
   byte_at (chunks \<lparr>offset = 0, size_EPROM = 512,
             image_EPROM = [0x61, 0x62] @ replicate 510 0xFF, binfile = [(0, [0x61, 0x62])]\<rparr>) 1
     = Some 0x62 \<and>
   byte_at (chunks \<lparr>offset = 0, size_EPROM = 512,
             image_EPROM = [0x61, 0x62] @ replicate 510 0xFF, binfile = [(0, [0x61, 0x62])]\<rparr>) 2
     = None"
proof -
  let ?e0 = "EPROM_init 512 0"
  let ?e1 = "\<lparr>offset = 0, size_EPROM = 512,
             image_EPROM = [0x61, 0x62] @ replicate 510 (0xFF::byte),
             binfile = [(0, [0x61, 0x62])]\<rparr>"
  have inv0: "EPROM_inv ?e0"
    by (simp add: EPROM_inv_def EPROM_init_def store_inv_def)
  have inv2: "EPROM_inv main_two_chunks"
    by (simp add: main_two_chunks_eq EPROM_inv_def store_inv_def)
  have first: "add_bytes ?e0 0 [0x61, 0x62] = (None, ?e1)"
    by (simp add: add_bytes_def add_binary_def collides_def add_bytes_to_image_def
        EPROM_init_def Let_def)
  have len: "(1::nat) < length (binfile main_two_chunks)"
    by (simp add: main_two_chunks_eq)
  have c0: "byte_at (chunks ?e0) 1 = None" "byte_at (chunks ?e0) 2 = None" "offset ?e0 = 0"
    by (simp_all add: chunks_def EPROM_init_def byte_at_Nil)
  note t = chunks_keep_gaps [of 17 main_two_chunks 1 0 "[]" main_two_chunks 0]
  from t have "2 \<le> (17::int) \<and> (17::int) < 0x20 \<longrightarrow>
      image_EPROM main_two_chunks ! nat 17 = 0xFF \<and> byte_at (chunks main_two_chunks) 17 = None"
    by blast
  then have a: "image_EPROM main_two_chunks ! 17 = 0xFF"
    and b: "byte_at (chunks main_two_chunks) 17 = None"
    by simp_all
  from t len have "fst (chunks main_two_chunks ! 1) = fst (binfile main_two_chunks ! 1) - offset main_two_chunks"
    by blast
  then have c: "fst (chunks main_two_chunks ! 1) = 0x20"
    by (simp add: main_two_chunks_eq)
  from t inv2 have d: "sorted_wrt (<) (map fst (chunks main_two_chunks))"
    by blast
  from chunks_keep_gaps [of 17 ?e0 1 0 "[0x61, 0x62]" ?e1 1] inv0 first c0
  have f: "byte_at (chunks ?e1) 1 = Some 0x62" by simp
  from chunks_keep_gaps [of 17 ?e0 1 0 "[0x61, 0x62]" ?e1 2] inv0 first c0
  have g: "byte_at (chunks ?e1) 2 = None" by simp
  from a b len c inv2 d inv0 first f g show ?thesis by simp
qed

section \<open>Raw Hex\<close>





























section \<open>The file type\<close>

text \<open>
  What \<open>_get_filetype\<close> and \<open>readfile\<close> do for the extensions, for a \<open>.hex\<close> file that has
  a first character, and for an unrecognised extension of a file that can be opened.
\<close>

lemma get_filetype_values:
  assumes "get_filetype fs f = Inr (Some t)"
  shows "t = ''srecord'' \<or> t = ''hex'' \<or> t = ''intelhex'' \<or> t = ''binary''"
  using assms
  by (auto simp: get_filetype_def Let_def split: if_splits option.splits list.splits)

lemma readfile_Inr:
  assumes "fst (readfile L fs e f addr) = Inr t"
  shows "get_filetype fs f = Inr (Some t)"
proof (cases "get_filetype fs f")
  case (Inl x)
  with assms show ?thesis by (simp add: readfile_def)
next
  case (Inr ft)
  show ?thesis
  proof (cases ft)
    case None
    with Inr assms show ?thesis
      by (simp add: readfile_def read_into_binfile_def)
  next
    case (Some u)
    with Inr assms show ?thesis
      by (auto simp: readfile_def split: prod.splits option.splits)
  qed
qed

lemma readfile_selects_format:
  "(splitext_ext f = ''.s19'' \<longrightarrow> get_filetype fs f = Inr (Some ''srecord'')) \<and>
   (splitext_ext f = ''.bin'' \<longrightarrow> get_filetype fs f = Inr (Some ''binary'')) \<and>
   (splitext_ext f = ''.ihex'' \<longrightarrow> get_filetype fs f = Inr (Some ''intelhex'')) \<and>
   (splitext_ext f = ''.hex'' \<and> fs f = Some (c # cs) \<longrightarrow>
      get_filetype fs f = Inr (Some (if c = CHR '':'' then ''intelhex'' else ''hex''))) \<and>
   (splitext_ext f \<notin> {''.s19'', ''.bin'', ''.hex'', ''.ihex''} \<and> fs f = Some body \<longrightarrow>
      readfile L fs e f addr = (Inl (Error (UnknownFileType f)), e)) \<and>
   (fst (readfile L fs e f addr) = Inr t \<longrightarrow>
      get_filetype fs f = Inr (Some t) \<and>
      (t = ''srecord'' \<or> t = ''hex'' \<or> t = ''intelhex'' \<or> t = ''binary''))"
proof (intro conjI impI)
  assume "fst (readfile L fs e f addr) = Inr t"
  then show g: "get_filetype fs f = Inr (Some t)" by (rule readfile_Inr)
  then show "t = ''srecord'' \<or> t = ''hex'' \<or> t = ''intelhex'' \<or> t = ''binary''"
    by (rule get_filetype_values)
next
  assume "splitext_ext f = ''.hex'' \<and> fs f = Some (c # cs)"
  then show "get_filetype fs f = Inr (Some (if c = CHR '':'' then ''intelhex'' else ''hex''))"
    by (simp add: get_filetype_def)
next
  assume "splitext_ext f \<notin> {''.s19'', ''.bin'', ''.hex'', ''.ihex''} \<and> fs f = Some body"
  then show "readfile L fs e f addr = (Inl (Error (UnknownFileType f)), e)"
    by (simp add: readfile_def get_filetype_def read_into_binfile_def)
qed (simp_all add: get_filetype_def)

text \<open>
  Claim C6, at an empty file named \<open>empty.hex\<close>. The claim gives \<open>"hex"\<close> for a \<open>.hex\<close> file
  whose first character is not \<open>:\<close>. \<open>_get_filetype\<close> reads the first line, which is empty,
  and \<open>line[0]\<close> raises \<open>IndexError\<close>; \<open>readfile\<close> lets it through. \<open>_import_hex\<close>, which
  checks \<open>len(line) == 0\<close> before it looks at \<open>line[0]\<close>, reads the same file as no bytes.
\<close>

theorem empty_hex_file_IndexError:
  "get_filetype (\<lambda>name. if name = ''empty.hex'' then Some [] else None) ''empty.hex''
     = Inl IndexError \<and>
   readfile L (\<lambda>name. if name = ''empty.hex'' then Some [] else None) e ''empty.hex'' addr
     = (Inl IndexError, e) \<and>
   import_hex (\<lambda>name. if name = ''empty.hex'' then Some [] else None) ''empty.hex'' = Inr []"
proof -
  have "splitext_ext ''empty.hex'' = ''.hex''" by code_simp
  then show ?thesis
    by (simp add: readfile_def get_filetype_def import_hex_def readlines_def)
qed

section \<open>Exception classes\<close>

text \<open>
  The claim has a collision and a bounds failure as distinct, distinctly catchable kinds.
  Both are raised as \<open>Error\<close>, the only exception class the module declares: an \<open>except\<close>
  clause that catches one catches the other.
\<close>

theorem collision_and_bounds_same_class:
  "fst (add_bytes (snd (add_bytes (EPROM_init 16 0) 6 [0x61, 0x62])) 7 [0x00])
     = Some (Error (AddingBytes 7)) \<and>
   fst (add_bytes (snd (add_bytes (EPROM_init 16 0) 6 [0x61, 0x62])) 100 [0x78])
     = Some (Error (PastEnd 1 100 16)) \<and>
   class_of (Error (AddingBytes 7)) = class_of (Error (PastEnd 1 100 16))"
  by (simp add: add_bytes_def add_binary_def collides_def overlaps_def add_bytes_to_image_def
      EPROM_init_def Let_def)

lemma add_bytes_raises:
  assumes "fst (add_bytes e a d) = Some x"
  shows "x = Error (AddingBytes a) \<or> x = Error (LessThanOffset a (offset e)) \<or>
         x = Error (PastEnd (length d) a (size_EPROM e))"
  using assms
  by (auto simp: add_bytes_def add_binary_def add_bytes_to_image_def Let_def
      split: if_splits sum.splits)

text \<open>
  Claim C8, amended. Every exception that \<open>add_bytes\<close> raises is an instance of the single
  class \<open>Error\<close>: the collision error or one of the two bounds errors, which differ in their
  message only (the three messages are different for all arguments). An unknown file type
  makes \<open>readfile\<close> raise \<open>Error\<close> as well, and a \<open>bincopy.Error\<close> raised while the file is
  read into the store is re-raised as \<open>Error\<close>. A file that cannot be opened, when the module
  itself opens it (extension other than \<open>.s19\<close>, \<open>.bin\<close>, \<open>.ihex\<close>), makes \<open>readfile\<close> and
  \<open>scanfile\<close> fail with \<open>OSError\<close>, which is not \<open>Error\<close>.
\<close>

theorem single_error_class:
  "(fst (add_bytes e a d) = Some x \<longrightarrow>
      class_of x = ClsError \<and>
      (x = Error (AddingBytes a) \<or> x = Error (LessThanOffset a (offset e)) \<or>
       x = Error (PastEnd (length d) a (size_EPROM e)))) \<and>
   Error (AddingBytes a) \<noteq> Error (LessThanOffset a' off) \<and>
   Error (AddingBytes a) \<noteq> Error (PastEnd n a' sz) \<and>
   Error (LessThanOffset a off) \<noteq> Error (PastEnd n a' sz) \<and>
   (get_filetype fs f = Inr None \<longrightarrow>
      readfile L fs e f addr = (Inl (Error (UnknownFileType f)), e)) \<and>
   (get_filetype fs f = Inr ftype \<and>
      read_into_binfile L fs ftype f addr (binfile e) = (Some BincopyError, segs) \<longrightarrow>
      readfile L fs e f addr = (Inl (Error FromBincopy), e\<lparr>binfile := segs\<rparr>)) \<and>
   (fs f = None \<and> splitext_ext f \<notin> {''.s19'', ''.bin'', ''.ihex''} \<longrightarrow>
      readfile L fs e f addr = (Inl OSError, e) \<and> scanfile L fs f = Inl OSError) \<and>
   class_of OSError \<noteq> ClsError"
proof (intro conjI impI)
  assume r: "fst (add_bytes e a d) = Some x"
  from add_bytes_raises [OF r]
  show "x = Error (AddingBytes a) \<or> x = Error (LessThanOffset a (offset e)) \<or>
       x = Error (PastEnd (length d) a (size_EPROM e))" .
  then show "class_of x = ClsError" by auto
next
  assume "get_filetype fs f = Inr None"
  then show "readfile L fs e f addr = (Inl (Error (UnknownFileType f)), e)"
    by (simp add: readfile_def read_into_binfile_def)
next
  assume "get_filetype fs f = Inr ftype \<and>
      read_into_binfile L fs ftype f addr (binfile e) = (Some BincopyError, segs)"
  then show "readfile L fs e f addr = (Inl (Error FromBincopy), e\<lparr>binfile := segs\<rparr>)"
    by (simp add: readfile_def)
next
  assume h: "fs f = None \<and> splitext_ext f \<notin> {''.s19'', ''.bin'', ''.ihex''}"
  then have "get_filetype fs f = Inl OSError"
    by (auto simp: get_filetype_def Let_def)
  then show "readfile L fs e f addr = (Inl OSError, e)" and "scanfile L fs f = Inl OSError"
    by (simp_all add: readfile_def scanfile_def)
qed simp_all

theorem single_error_class_witness:
  "fst (add_bytes \<lparr>offset = 0, size_EPROM = 16,
             image_EPROM = replicate 6 0xFF @ [0x61, 0x62] @ replicate 8 0xFF,
             binfile = [(6, [0x61, 0x62])]\<rparr> 7 [0x00]) = Some (Error (AddingBytes 7)) \<and>
   class_of (Error (AddingBytes 7)) = ClsError \<and>
   get_filetype (\<lambda>name. Some ''zz'') ''x.dat'' = Inr None \<and>
   readfile bincopy_stub (\<lambda>name. Some ''zz'') (EPROM_init 16 0) ''x.dat'' 0 =
     (Inl (Error (UnknownFileType ''x.dat'')), EPROM_init 16 0) \<and>
   get_filetype gap_fs ''other.ihex'' = Inr (Some ''intelhex'') \<and>
   read_into_binfile gap_bincopy gap_fs (Some ''intelhex'') ''other.ihex'' 0
       (binfile (EPROM_init 16 0)) = (Some BincopyError, []) \<and>
   readfile gap_bincopy gap_fs (EPROM_init 16 0) ''other.ihex'' 0 =
     (Inl (Error FromBincopy), (EPROM_init 16 0)\<lparr>binfile := []\<rparr>) \<and>
   echo_fs ''missing.hex'' = None \<and>
   readfile bincopy_stub echo_fs (EPROM_init 16 0) ''missing.hex'' 0
     = (Inl OSError, EPROM_init 16 0) \<and>
   scanfile bincopy_stub echo_fs ''missing.hex'' = Inl OSError"
proof -
  let ?e1 = "\<lparr>offset = 0, size_EPROM = 16,
             image_EPROM = replicate 6 0xFF @ [0x61, 0x62] @ replicate 8 (0xFF::byte),
             binfile = [(6, [0x61, 0x62])]\<rparr>"
  let ?e = "EPROM_init 16 0"
  have a: "fst (add_bytes ?e1 7 [0x00]) = Some (Error (AddingBytes 7))"
    by (simp add: add_bytes_def add_binary_def collides_def overlaps_def)
  from single_error_class [where e = ?e1 and a = 7 and d = "[0x00]" and x = "Error (AddingBytes 7)"] a
  have b: "class_of (Error (AddingBytes 7)) = ClsError" by blast
  have c: "get_filetype (\<lambda>name. Some ''zz'') ''x.dat'' = Inr None" by code_simp
  from single_error_class [where fs = "\<lambda>name. Some ''zz''" and f = "''x.dat''"
      and L = bincopy_stub and e = ?e and addr = 0] c
  have d: "readfile bincopy_stub (\<lambda>name. Some ''zz'') ?e ''x.dat'' 0 =
     (Inl (Error (UnknownFileType ''x.dat'')), ?e)" by blast
  have f: "get_filetype gap_fs ''other.ihex'' = Inr (Some ''intelhex'')" by code_simp
  have g: "read_into_binfile gap_bincopy gap_fs (Some ''intelhex'') ''other.ihex'' 0
       (binfile ?e) = (Some BincopyError, [])" by code_simp
  from single_error_class [where fs = gap_fs and f = "''other.ihex''" and L = gap_bincopy
      and e = ?e and addr = 0 and ftype = "Some ''intelhex''" and segs = "[]"] f g
  have h: "readfile gap_bincopy gap_fs ?e ''other.ihex'' 0 =
     (Inl (Error FromBincopy), ?e\<lparr>binfile := []\<rparr>)" by blast
  have i: "echo_fs ''missing.hex'' = None" by (simp add: echo_fs_def)
  have j: "splitext_ext ''missing.hex'' \<notin> {''.s19'', ''.bin'', ''.ihex''}" by code_simp
  from single_error_class [where fs = echo_fs and f = "''missing.hex''" and L = bincopy_stub
      and e = ?e and addr = 0] i j
  have k: "readfile bincopy_stub echo_fs ?e ''missing.hex'' 0 = (Inl OSError, ?e)"
    and l: "scanfile bincopy_stub echo_fs ''missing.hex'' = Inl OSError" by blast+
  from a b c d f g h i k l show ?thesis by simp
qed

section \<open>Scanning a file\<close>

lemma fold_min_first:
  "\<forall>t\<in>set xs. m \<le> fst t \<Longrightarrow> fold (\<lambda>t m. min (fst t) m) xs m = (m::int)"
  by (induction xs) (simp_all add: min_absorb2)

lemma minimum_address_first:
  assumes "store_inv (s # rest)"
  shows "minimum_address (s # rest) = Some (fst s)"
proof -
  from assms have "\<forall>t\<in>set rest. fst s + int (length (snd s)) \<le> fst t"
    by (simp add: store_inv_Cons)
  then have "\<forall>t\<in>set rest. fst s \<le> fst t" by fastforce
  then show ?thesis by (simp add: minimum_address_def fold_min_first)
qed

lemma fold_max_last:
  "store_inv xs \<Longrightarrow> \<forall>t\<in>set xs. m \<le> seg_end t \<Longrightarrow>
   fold (\<lambda>t m. max (fst t + int (length (snd t))) m) xs m =
     (if xs = [] then m else seg_end (last xs))"
proof (induction xs arbitrary: m)
  case Nil
  show ?case by simp
next
  case (Cons x xs)
  from Cons.prems(1) have sorted: "\<forall>t\<in>set xs. seg_end x \<le> fst t" and rest: "store_inv xs"
    by (simp_all add: store_inv_Cons seg_end_def)
  have "\<forall>t\<in>set xs. seg_end x \<le> seg_end t"
  proof
    fix t assume "t \<in> set xs"
    with sorted have "seg_end x \<le> fst t" by blast
    then show "seg_end x \<le> seg_end t" by (simp add: seg_end_def)
  qed
  from Cons.IH [OF rest this] Cons.prems(2) show ?case
    by (simp add: max_absorb1 seg_end_def)
qed

lemma maximum_address_last:
  assumes "store_inv segs" and "segs \<noteq> []"
  shows "maximum_address segs = Some (seg_end (last segs))"
proof (cases segs)
  case Nil
  with assms show ?thesis by simp
next
  case (Cons s rest)
  from assms Cons have sorted: "\<forall>t\<in>set rest. seg_end s \<le> fst t" and rest: "store_inv rest"
    by (simp_all add: store_inv_Cons seg_end_def)
  have "\<forall>t\<in>set rest. seg_end s \<le> seg_end t"
  proof
    fix t assume "t \<in> set rest"
    with sorted have "seg_end s \<le> fst t" by blast
    then show "seg_end s \<le> seg_end t" by (simp add: seg_end_def)
  qed
  from fold_max_last [OF rest this] Cons show ?thesis
    by (simp add: maximum_address_def seg_end_def)
qed

lemma total_le_span:
  "store_inv segs \<Longrightarrow> segs \<noteq> [] \<Longrightarrow>
   sum_list (map (\<lambda>s. int (length (snd s))) segs) \<le> seg_end (last segs) - fst (hd segs)"
proof (induction segs)
  case Nil
  then show ?case by simp
next
  case (Cons s rest)
  show ?case
  proof (cases rest)
    case Nil
    then show ?thesis by (simp add: seg_end_def)
  next
    case (Cons t rest')
    from Cons.prems have "seg_end s \<le> fst (hd rest)" and "store_inv rest"
      using Cons by (simp_all add: store_inv_Cons seg_end_def)
    with Cons.IH Cons show ?thesis by (simp add: seg_end_def)
  qed
qed

lemma byte_at_covered: "byte_at segs x \<noteq> None \<longleftrightarrow> (\<exists>s\<in>set segs. covers s x)"
  by (induction segs) (auto simp: byte_at_Cons byte_at_Nil)

lemma store_inv_range:
  "store_inv segs \<Longrightarrow> s \<in> set segs \<Longrightarrow> fst (hd segs) \<le> fst s \<and> seg_end s \<le> seg_end (last segs)"
proof (induction segs)
  case Nil
  then show ?case by simp
next
  case (Cons u rest)
  from Cons.prems(1) have sorted: "\<forall>t\<in>set rest. seg_end u \<le> fst t" and rest: "store_inv rest"
    by (simp_all add: store_inv_Cons seg_end_def)
  show ?case
  proof (cases "s = u")
    case True
    show ?thesis
    proof (cases rest)
      case Nil
      with True show ?thesis by simp
    next
      case (Cons t rest')
      then have "last rest \<in> set rest" by simp
      with sorted have "seg_end u \<le> fst (last rest)" by blast
      then have "seg_end u \<le> seg_end (last rest)" by (simp add: seg_end_def)
      with True Cons show ?thesis by simp
    qed
  next
    case False
    with Cons.prems(2) have in_rest: "s \<in> set rest" by simp
    with Cons.IH [OF rest] have ih: "fst (hd rest) \<le> fst s \<and> seg_end s \<le> seg_end (last rest)"
      by simp
    from in_rest sorted have "seg_end u \<le> fst s" by blast
    then have "fst u \<le> fst s" by (simp add: seg_end_def)
    with ih in_rest show ?thesis by auto
  qed
qed

lemma scanfile_loaded:
  assumes ft: "get_filetype fs f = Inr (Some t)"
    and rd: "read_into_binfile L fs (Some t) f 0 [] = (None, segs)"
    and inv: "store_inv segs" and ne: "segs \<noteq> []"
  shows "scanfile L fs f =
     Inr (t, fst (hd segs), seg_end (last segs) - 1, seg_end (last segs) - 1 - fst (hd segs) + 1,
          map (\<lambda>(addr, data). (addr, addr + int (length data) - 1, int (length data))) segs,
          as_hexdump L segs)"
proof -
  from ne obtain s rest where segs: "segs = s # rest" by (cases segs) auto
  with inv have "minimum_address segs = Some (fst (hd segs))"
    by (simp add: minimum_address_first)
  moreover from inv ne have "maximum_address segs = Some (seg_end (last segs))"
    by (rule maximum_address_last)
  ultimately show ?thesis using ft rd
    by (simp add: scanfile_def Let_def)
qed

text \<open>
  The claim has \<open>totalLength\<close> as the total length of the file's data. For a file whose two
  data records put one byte at address 0 and one at address 0x0A, \<open>scanfile\<close> returns the
  length 11: \<open>alen = aend - astart + 1\<close> counts the gap between the runs.
\<close>

theorem scanfile_span_exceeds_data:
  "scanfile gap_bincopy gap_fs ''gap.ihex'' =
     Inr (''intelhex'', 0, 10, 11, [(0, 0, 1), (10, 10, 1)], []) \<and>
   (11::int) \<noteq> int (length [0x01::byte]) + int (length [0x02::byte])"
  by code_simp

text \<open>
  Claim C9, amended. Scan-only mode: \<open>scanfile\<close> takes a file name and no image. When the
  file's type is recognised and the file is read into a fresh store without error, leaving
  the runs \<open>segs\<close> (at least one), \<open>scanfile\<close> returns the tuple (format, minAddress,
  maxAddress, length, chunkList, hexDumpText): minAddress and maxAddress are the lowest and
  the highest occupied absolute address; length is \<open>maxAddress - minAddress + 1\<close>, the size
  of the address span, which is at least the number of data bytes and equal to it when the
  store holds a single run; chunkList has, for every run, its first address, its last
  address and its length; hexDumpText is the library's hex dump of the store.
\<close>

theorem scanfile_report:
  assumes ft: "get_filetype fs f = Inr (Some t)"
    and rd: "read_into_binfile L fs (Some t) f 0 [] = (None, segs)"
    and inv: "store_inv segs" and ne: "segs \<noteq> []"
  shows "scanfile L fs f =
           Inr (t, fst (hd segs), seg_end (last segs) - 1,
                seg_end (last segs) - 1 - fst (hd segs) + 1,
                map (\<lambda>(addr, data). (addr, addr + int (length data) - 1, int (length data))) segs,
                as_hexdump L segs) \<and>
         byte_at segs (fst (hd segs)) \<noteq> None \<and>
         byte_at segs (seg_end (last segs) - 1) \<noteq> None \<and>
         (byte_at segs x \<noteq> None \<longrightarrow> fst (hd segs) \<le> x \<and> x \<le> seg_end (last segs) - 1) \<and>
         sum_list (map (\<lambda>s. int (length (snd s))) segs)
           \<le> seg_end (last segs) - 1 - fst (hd segs) + 1 \<and>
         (length segs = 1 \<longrightarrow>
            sum_list (map (\<lambda>s. int (length (snd s))) segs)
              = seg_end (last segs) - 1 - fst (hd segs) + 1)"
proof (intro conjI impI)
  show "scanfile L fs f =
           Inr (t, fst (hd segs), seg_end (last segs) - 1,
                seg_end (last segs) - 1 - fst (hd segs) + 1,
                map (\<lambda>(addr, data). (addr, addr + int (length data) - 1, int (length data))) segs,
                as_hexdump L segs)"
    using ft rd inv ne by (rule scanfile_loaded)
  from inv have nonempty: "\<forall>s\<in>set segs. snd s \<noteq> []"
    by (simp add: store_inv_def list_all_iff)
  from ne have "hd segs \<in> set segs" "last segs \<in> set segs" by simp_all
  with nonempty have h: "snd (hd segs) \<noteq> []" and l: "snd (last segs) \<noteq> []" by blast+
  from h have "covers (hd segs) (fst (hd segs))"
    by (cases "snd (hd segs)") (simp_all add: covers_def)
  with ne show "byte_at segs (fst (hd segs)) \<noteq> None"
    using byte_at_covered hd_in_set by blast
  from l have "covers (last segs) (seg_end (last segs) - 1)"
    by (cases "snd (last segs)") (simp_all add: covers_def seg_end_def)
  with ne show "byte_at segs (seg_end (last segs) - 1) \<noteq> None"
    using byte_at_covered last_in_set by blast
  from total_le_span [OF inv ne]
  show "sum_list (map (\<lambda>s. int (length (snd s))) segs)
           \<le> seg_end (last segs) - 1 - fst (hd segs) + 1"
    by simp
next
  assume "byte_at segs x \<noteq> None"
  then have "\<exists>s\<in>set segs. covers s x" by (simp only: byte_at_covered)
  then obtain s where s: "s \<in> set segs" "covers s x" by blast
  from store_inv_range [OF inv s(1)] s(2)
  show "fst (hd segs) \<le> x" and "x \<le> seg_end (last segs) - 1"
    by (simp_all add: covers_def seg_end_def)
next
  assume "length segs = 1"
  then obtain s where "segs = [s]" by (cases segs) auto
  then show "sum_list (map (\<lambda>s. int (length (snd s))) segs)
              = seg_end (last segs) - 1 - fst (hd segs) + 1"
    by (simp add: seg_end_def)
qed

theorem scanfile_report_witness:
  "get_filetype echo_fs ''echo.hex'' = Inr (Some ''hex'') \<and>
   read_into_binfile bincopy_stub echo_fs (Some ''hex'') ''echo.hex'' 0 []
     = (None, [(0, [1, 2, 0xFF])]) \<and>
   store_inv [(0, [1, 2, 0xFF])] \<and>
   [(0, [1, 2, 0xFF :: byte])] \<noteq> ([] :: segment list) \<and>
   scanfile bincopy_stub echo_fs ''echo.hex'' = Inr (''hex'', 0, 2, 3, [(0, 2, 3)], []) \<and>
   byte_at [(0, [1, 2, 0xFF])] 2 \<noteq> None \<and>
   length [(0 :: int, [1, 2, 0xFF :: byte])] = 1 \<and>
   get_filetype gap_fs ''gap.ihex'' = Inr (Some ''intelhex'') \<and>
   read_into_binfile gap_bincopy gap_fs (Some ''intelhex'') ''gap.ihex'' 0 []
     = (None, [(0, [0x01]), (0x0A, [0x02])]) \<and>
   store_inv [(0, [0x01]), (0x0A, [0x02])] \<and>
   scanfile gap_bincopy gap_fs ''gap.ihex'' =
     Inr (''intelhex'', 0, 10, 11, [(0, 0, 1), (10, 10, 1)], [])"
proof -
  let ?segs = "[(0, [1, 2, 0xFF])] :: segment list"
  let ?gap = "[(0, [0x01]), (0x0A, [0x02])] :: segment list"
  have a: "get_filetype echo_fs ''echo.hex'' = Inr (Some ''hex'')" by code_simp
  have b: "read_into_binfile bincopy_stub echo_fs (Some ''hex'') ''echo.hex'' 0 [] = (None, ?segs)"
    by code_simp
  have c: "store_inv ?segs" by (simp add: store_inv_def)
  have d: "?segs \<noteq> []" by simp
  note t = scanfile_report [OF a b c d, of 2]
  from t have e: "scanfile bincopy_stub echo_fs ''echo.hex'' = Inr (''hex'', 0, 2, 3, [(0, 2, 3)], [])"
    by (simp add: seg_end_def bincopy_stub_def)
  from t have f: "byte_at ?segs 2 \<noteq> None" by (simp add: seg_end_def)
  have g: "get_filetype gap_fs ''gap.ihex'' = Inr (Some ''intelhex'')" by code_simp
  have h: "read_into_binfile gap_bincopy gap_fs (Some ''intelhex'') ''gap.ihex'' 0 [] = (None, ?gap)"
    by code_simp
  have i: "store_inv ?gap" by (simp add: store_inv_def)
  have j: "?gap \<noteq> []" by simp
  from scanfile_report [OF g h i j, of 0]
  have k: "scanfile gap_bincopy gap_fs ''gap.ihex'' =
     Inr (''intelhex'', 0, 10, 11, [(0, 0, 1), (10, 10, 1)], [])"
    by (simp add: seg_end_def gap_bincopy_def)
  from a b c d e f g h i k show ?thesis by simp
qed

end
